theory Spec2Isabelle
  imports Main "HOL-Library.AList" "HOL-Library.Multiset"
begin

section \<open>The scroll restoration hook\<close>

text \<open>
  Source: \<^verbatim>\<open>src/lib/hooks/useScrollRestoration.ts\<close>. The hook keeps four mutable
  reference cells that survive re-renders; the callback it hands to
  \<^verbatim>\<open>useLayoutEffect\<close> is what the specification calls \<open>observe\<close>, and the
  function it returns is \<open>saveScrollPosition\<close>.

  JavaScript numbers (\<^verbatim>\<open>window.scrollY\<close>, the saved offset) are modelled as \<open>int\<close>:
  the hook only stores them and compares them with \<open>0\<close>. The reading of
  \<^verbatim>\<open>window.scrollY\<close> at the moment of a call is a parameter of the call.
\<close>

subsection \<open>Calls into the browser\<close>

datatype scroll_behavior = Auto | Smooth

text \<open>
  \<open>ScrollTo top b\<close> is \<^verbatim>\<open>window.scrollTo({ top, behavior })\<close>;
  \<open>RequestAnimationFrame c\<close> is \<^verbatim>\<open>requestAnimationFrame(() => { c })\<close>, a
  request to run the call \<open>c\<close> in the next animation frame.
\<close>

datatype browser_call =
    ScrollTo int scroll_behavior
  | RequestAnimationFrame browser_call

subsection \<open>The reference cells\<close>

record refs =
  savedScrollY :: int
  hasMounted :: bool
  prevIsActive :: bool
  skipNextAutoSave :: bool

text \<open>The four \<^verbatim>\<open>useRef\<close> initialisers of the first render (lines 8-11).\<close>

definition useScrollRestoration :: "bool \<Rightarrow> refs" where
  "useScrollRestoration isActive =
     \<lparr>savedScrollY = 0, hasMounted = False, prevIsActive = isActive,
      skipNextAutoSave = False\<rparr>"

subsection \<open>The layout effect (lines 13-50)\<close>

text \<open>
  \<open>layoutEffect isActive scrollY r\<close> runs the effect body once with activation flag
  \<open>isActive\<close>, with \<^verbatim>\<open>window.scrollY\<close> reading \<open>scrollY\<close>, on the cells \<open>r\<close>. It
  returns the updated cells and the browser calls made, in order.
\<close>

definition layoutEffect :: "bool \<Rightarrow> int \<Rightarrow> refs \<Rightarrow> refs \<times> browser_call list" where
  "layoutEffect isActive scrollY r =
     (let wasActive = prevIsActive r;
          r1 = r\<lparr>prevIsActive := isActive\<rparr>
      in if \<not> hasMounted r1 then (r1\<lparr>hasMounted := True\<rparr>, [])
         else if wasActive \<and> \<not> isActive then
           (if skipNextAutoSave r1 then (r1\<lparr>skipNextAutoSave := False\<rparr>, [])
            else (let y = scrollY
                  in if y \<noteq> 0 \<or> savedScrollY r1 = 0
                     then (r1\<lparr>savedScrollY := y\<rparr>, [])
                     else (r1, [])))
         else if \<not> wasActive \<and> isActive then
           (let y = savedScrollY r1
            in if y = 0 then (r1, [])
               else (r1, [RequestAnimationFrame (RequestAnimationFrame (ScrollTo y Auto))]))
         else (r1, []))"

subsection \<open>The explicit save (lines 53-56)\<close>

definition saveScrollPosition :: "int \<Rightarrow> refs \<Rightarrow> refs" where
  "saveScrollPosition scrollY r =
     (let r1 = r\<lparr>skipNextAutoSave := True\<rparr>
      in r1\<lparr>savedScrollY := scrollY\<rparr>)"

subsection \<open>Events and runs\<close>

text \<open>
  The two ways the cells are ever touched: a run of the layout effect, and a call of
  \<open>saveScrollPosition\<close>. Each carries the scroll offset the window reports then.
\<close>

datatype event = Observe bool int | SaveScrollPosition int

fun step :: "refs \<Rightarrow> event \<Rightarrow> refs \<times> browser_call list" where
  "step r (Observe isActive scrollY) = layoutEffect isActive scrollY r"
| "step r (SaveScrollPosition scrollY) = (saveScrollPosition scrollY r, [])"

text \<open>A sequence of effect runs, keeping the cells only.\<close>

fun observeAll :: "(bool \<times> int) list \<Rightarrow> refs \<Rightarrow> refs" where
  "observeAll [] r = r"
| "observeAll ((isActive, scrollY) # obs) r =
     observeAll obs (fst (layoutEffect isActive scrollY r))"

text \<open>
  Whether a sequence of activation flags, observed after the flag \<open>p\<close>, contains a
  change from active to inactive.
\<close>

fun hasDeactivation :: "bool \<Rightarrow> bool list \<Rightarrow> bool" where
  "hasDeactivation p [] = False"
| "hasDeactivation p (b # bs) = ((p \<and> \<not> b) \<or> hasDeactivation b bs)"

subsection \<open>Animation frames\<close>

text \<open>
  The browser side of \<^verbatim>\<open>requestAnimationFrame\<close>, as far as the hook relies on it:
  the callbacks requested so far wait in \<open>frameCallbacks\<close>; an animation frame runs the
  callbacks that were waiting when it began, and a callback requested during a frame
  waits for the next one. \<open>scrollCommands\<close> lists the \<^verbatim>\<open>scrollTo\<close> calls that have
  reached the window.
\<close>

record browser =
  frameCallbacks :: "browser_call list"
  scrollCommands :: "(int \<times> scroll_behavior) list"

fun perform :: "browser_call \<Rightarrow> browser \<Rightarrow> browser" where
  "perform (ScrollTo y b) w = w\<lparr>scrollCommands := scrollCommands w @ [(y, b)]\<rparr>"
| "perform (RequestAnimationFrame c) w = w\<lparr>frameCallbacks := frameCallbacks w @ [c]\<rparr>"

definition animationFrame :: "browser \<Rightarrow> browser" where
  "animationFrame w = fold perform (frameCallbacks w) (w\<lparr>frameCallbacks := []\<rparr>)"

definition idle :: browser where
  "idle = \<lparr>frameCallbacks = [], scrollCommands = []\<rparr>"

subsection \<open>Sample states\<close>

text \<open>A mounted hook with the skip flag unset, a given saved offset and a given last flag.\<close>

definition savedState :: "int \<Rightarrow> bool \<Rightarrow> refs" where
  "savedState v active =
     \<lparr>savedScrollY = v, hasMounted = True, prevIsActive = active, skipNextAutoSave = False\<rparr>"

section \<open>The people API handler\<close>

text \<open>
  Source: \<^verbatim>\<open>src/unnamed/part_000\<close>, lines 213-284 (the route handler \<^verbatim>\<open>GET\<close>).
  The handler lists a directory, reads and parses every leaderboard file in it, merges
  the entries into a \<^verbatim>\<open>Map\<close> keyed by username and answers with the entries sorted
  by points.

  Numbers (\<^verbatim>\<open>updatedAt\<close>, \<^verbatim>\<open>total_points\<close>) are modelled as \<open>int\<close>, and a
  field that is read without an exception has the type the interfaces
  \<^verbatim>\<open>LeaderboardData\<close> and \<^verbatim>\<open>ContributorEntry\<close> declare. Nothing checks a
  parsed file against these interfaces, so the model has a value for every way the
  body of the per-file \<^verbatim>\<open>try\<close> (lines 243-265) can throw: at the read or parse
  (line 245), at the first property access when the file holds \<^verbatim>\<open>null\<close> (line 247),
  at the start of the loop when \<^verbatim>\<open>entries\<close> is not iterable (line 251), and at an
  array element whose \<^verbatim>\<open>username\<close> has no \<^verbatim>\<open>includes\<close> (line 252).
\<close>

subsection \<open>Data\<close>

record contributor_entry =
  username :: string
  name :: "string option"
  avatar_url :: string
  role :: string
  total_points :: int
  activity_breakdown :: "(string \<times> int \<times> int) list"
  daily_activity :: "(string \<times> int \<times> int) list"

text \<open>
  One element of the \<^verbatim>\<open>entries\<close> array: an entry, or an element at which
  \<^verbatim>\<open>entry.username.includes\<close> throws (the element is \<^verbatim>\<open>null\<close>, or its
  \<^verbatim>\<open>username\<close> is missing or not a string).
\<close>

datatype entry_json = Entry contributor_entry | BadEntry

text \<open>
  The \<^verbatim>\<open>entries\<close> field: absent or falsy, so that \<^verbatim>\<open>data.entries || []\<close> is
  the empty array; present but not iterable, so that the \<^verbatim>\<open>for\<close> throws; or an
  array.
\<close>

datatype entries_json = NoEntries | NotIterable | Items "entry_json list"

record leaderboard_data =
  period :: string
  updatedAt :: int
  entries :: entries_json

text \<open>
  What \<^verbatim>\<open>JSON.parse(fs.readFileSync(filePath, 'utf-8'))\<close> gives for one file:
  an exception (the file cannot be read, or is not JSON), the value \<^verbatim>\<open>null\<close>, or
  parsed data.
\<close>

datatype file_read = Unreadable | ParsedNull | Parsed leaderboard_data

text \<open>A directory listing, in \<^verbatim>\<open>readdirSync\<close> order: file names with their contents.\<close>

type_synonym directory = "(string \<times> file_read) list"

datatype log_line = ErrorReading string | ErrorFetchingPeople

record people_body =
  respUpdatedAt :: int
  people :: "contributor_entry list"

datatype response = Json200 people_body | Json500

record merge_state =
  allContributors :: "(string \<times> contributor_entry) list"
  latestUpdatedAt :: int
  errorLog :: "log_line list"

subsection \<open>String helpers of the language\<close>

text \<open>\<^verbatim>\<open>s.includes(sub)\<close>: \<open>sub\<close> occurs in \<open>s\<close> as a contiguous part.\<close>

fun includes_sub :: "string \<Rightarrow> string \<Rightarrow> bool" where
  "includes_sub [] sub = (sub = [])"
| "includes_sub (c # cs) sub = (take (length sub) (c # cs) = sub \<or> includes_sub cs sub)"

text \<open>\<^verbatim>\<open>s.endsWith(suffix)\<close>.\<close>

definition endsWith :: "string \<Rightarrow> string \<Rightarrow> bool" where
  "endsWith s suffix =
     (length suffix \<le> length s \<and> drop (length s - length suffix) s = suffix)"

text \<open>
  \<^verbatim>\<open>xs.sort(cmp)\<close> for a comparator \<open>cmp\<close>: a stable sort that puts \<open>a\<close> before
  \<open>b\<close> when \<open>cmp a b\<close> is negative and keeps their order when it is zero.
\<close>

fun insert_by :: "('a \<Rightarrow> 'a \<Rightarrow> int) \<Rightarrow> 'a \<Rightarrow> 'a list \<Rightarrow> 'a list" where
  "insert_by cmp x [] = [x]"
| "insert_by cmp x (y # ys) =
     (if cmp x y \<le> 0 then x # y # ys else y # insert_by cmp x ys)"

definition array_sort :: "('a \<Rightarrow> 'a \<Rightarrow> int) \<Rightarrow> 'a list \<Rightarrow> 'a list" where
  "array_sort cmp xs = foldr (insert_by cmp) xs []"

subsection \<open>The handler\<close>

text \<open>The filter on the directory listing (line 237).\<close>

definition jsonFiles :: "directory \<Rightarrow> directory" where
  "jsonFiles dir =
     filter (\<lambda>(file, content). endsWith file ''.json'' \<and> file \<noteq> ''recent-activities.json'') dir"

text \<open>The test that skips an entry (lines 252-256).\<close>

definition isBot :: "string \<Rightarrow> bool" where
  "isBot u =
     (includes_sub u ''[bot]'' \<or> includes_sub u ''bot'' \<or> includes_sub u ''dependabot''
      \<or> includes_sub u ''renovate'' \<or> includes_sub u ''github-actions'')"

text \<open>
  The body of the inner loop (lines 251-264). The \<^verbatim>\<open>Map\<close> is an association list in
  insertion order: \<^verbatim>\<open>get\<close> is \<open>map_of\<close>, and \<^verbatim>\<open>set\<close> is \<open>AList.update\<close>, which
  replaces the value of a key in place and appends a new key at the end.
\<close>

definition mergeEntry ::
  "contributor_entry \<Rightarrow> (string \<times> contributor_entry) list \<Rightarrow> (string \<times> contributor_entry) list"
where
  "mergeEntry entry m =
     (if isBot (username entry) then m
      else (case map_of m (username entry) of
              None \<Rightarrow> AList.update (username entry) entry m
            | Some existing \<Rightarrow>
                if total_points entry > total_points existing
                then AList.update (username entry) entry m
                else m))"

text \<open>
  The inner loop (lines 251-264) over the elements of an array. An element that throws
  ends the loop; the entries merged before it stay in the \<^verbatim>\<open>Map\<close>. The result is
  the \<^verbatim>\<open>Map\<close> and whether the loop threw.
\<close>

fun mergeEntries ::
  "entry_json list \<Rightarrow> (string \<times> contributor_entry) list
     \<Rightarrow> (string \<times> contributor_entry) list \<times> bool"
where
  "mergeEntries [] m = (m, False)"
| "mergeEntries (BadEntry # es) m = (m, True)"
| "mergeEntries (Entry entry # es) m = mergeEntries es (mergeEntry entry m)"

text \<open>The \<^verbatim>\<open>catch\<close> of the per-file \<^verbatim>\<open>try\<close> (lines 265-267): it only logs.\<close>

definition logError :: "string \<Rightarrow> merge_state \<Rightarrow> merge_state" where
  "logError file s = s\<lparr>errorLog := errorLog s @ [ErrorReading file]\<rparr>"

text \<open>
  The body of the outer loop (lines 242-268). The \<^verbatim>\<open>try\<close> covers the read, the
  update of \<^verbatim>\<open>latestUpdatedAt\<close> and the inner loop, and the \<^verbatim>\<open>catch\<close> undoes
  nothing: a file that throws at line 245 or 247 leaves no trace but the log line, a
  file that throws later has already raised \<^verbatim>\<open>latestUpdatedAt\<close> and merged the
  entries before the throwing element.
\<close>

fun mergeFile :: "string \<times> file_read \<Rightarrow> merge_state \<Rightarrow> merge_state" where
  "mergeFile (file, Unreadable) s = logError file s"
| "mergeFile (file, ParsedNull) s = logError file s"
| "mergeFile (file, Parsed d) s =
     (let s1 = (if updatedAt d > latestUpdatedAt s then s\<lparr>latestUpdatedAt := updatedAt d\<rparr>
                else s)
      in case entries d of
           NoEntries \<Rightarrow> s1
         | NotIterable \<Rightarrow> logError file s1
         | Items es \<Rightarrow>
             (let (m, threw) = mergeEntries es (allContributors s1);
                  s2 = s1\<lparr>allContributors := m\<rparr>
              in if threw then logError file s2 else s2))"

text \<open>The comparator of line 271.\<close>

definition byPoints :: "contributor_entry \<Rightarrow> contributor_entry \<Rightarrow> int" where
  "byPoints a b = total_points b - total_points a"

text \<open>
  The handler. Its argument is what \<^verbatim>\<open>fs.readdirSync\<close> gives: \<open>None\<close> when it
  throws, which the outer \<^verbatim>\<open>catch\<close> answers with status 500. The result is the
  response and the lines written with \<^verbatim>\<open>console.error\<close>.
\<close>

definition GET :: "directory option \<Rightarrow> response \<times> log_line list" where
  "GET readdir =
     (case readdir of
        None \<Rightarrow> (Json500, [ErrorFetchingPeople])
      | Some dir \<Rightarrow>
          (let s = fold mergeFile (jsonFiles dir)
                     \<lparr>allContributors = [], latestUpdatedAt = 0, errorLog = []\<rparr>;
               sorted_people = array_sort byPoints (map snd (allContributors s))
           in (Json200 \<lparr>respUpdatedAt = latestUpdatedAt s, people = sorted_people\<rparr>,
               errorLog s)))"

subsection \<open>What a directory holds\<close>

text \<open>The data of the files that were read and parsed to something other than null.\<close>

fun readData :: "directory \<Rightarrow> leaderboard_data list" where
  "readData [] = []"
| "readData ((file, Unreadable) # fs) = readData fs"
| "readData ((file, ParsedNull) # fs) = readData fs"
| "readData ((file, Parsed d) # fs) = d # readData fs"


fun entriesBeforeThrow :: "entry_json list \<Rightarrow> contributor_entry list" where
  "entriesBeforeThrow [] = []"
| "entriesBeforeThrow (BadEntry # es) = []"
| "entriesBeforeThrow (Entry e # es) = e # entriesBeforeThrow es"


definition mergedOf :: "leaderboard_data \<Rightarrow> contributor_entry list" where
  "mergedOf d =
     (case entries d of NoEntries \<Rightarrow> [] | NotIterable \<Rightarrow> []
      | Items es \<Rightarrow> entriesBeforeThrow es)"


definition mergedEntries :: "directory \<Rightarrow> contributor_entry list" where
  "mergedEntries dir = concat (map mergedOf (readData (jsonFiles dir)))"

text \<open>
  Whether the per-file \<^verbatim>\<open>try\<close> throws on a file; \<open>failsToRead\<close> is the part of
  it that happens before the file has changed anything.
\<close>

fun failsToRead :: "file_read \<Rightarrow> bool" where
  "failsToRead Unreadable = True"
| "failsToRead ParsedNull = True"
| "failsToRead (Parsed d) = False"

fun throws :: "file_read \<Rightarrow> bool" where
  "throws Unreadable = True"
| "throws ParsedNull = True"
| "throws (Parsed d) =
     (case entries d of NoEntries \<Rightarrow> False | NotIterable \<Rightarrow> True
      | Items es \<Rightarrow> BadEntry \<in> set es)"

subsection \<open>Sample directories\<close>

definition sampleEntry :: "string \<Rightarrow> int \<Rightarrow> contributor_entry" where
  "sampleEntry u pts =
     \<lparr>username = u, name = None, avatar_url = [], role = ''contributor'',
      total_points = pts, activity_breakdown = [], daily_activity = []\<rparr>"

text \<open>
  Two period files sharing a contributor, a file that cannot be parsed, the excluded
  \<^verbatim>\<open>recent-activities.json\<close>, a file that is not JSON by name, and a period file
  without entries. Two usernames contain \<^verbatim>\<open>bot\<close>.
\<close>

definition sampleDir :: directory where
  "sampleDir =
     [(''week.json'', Parsed \<lparr>period = ''week'', updatedAt = 1700,
         entries = Items [Entry (sampleEntry ''alice'' 10),
                          Entry (sampleEntry ''dependabot[bot]'' 99),
                          Entry (sampleEntry ''bob'' 40)]\<rparr>),
      (''broken.json'', Unreadable),
      (''recent-activities.json'', Parsed \<lparr>period = ''recent'', updatedAt = 9999,
         entries = Items [Entry (sampleEntry ''zed'' 1)]\<rparr>),
      (''notes.txt'', Unreadable),
      (''month.json'', Parsed \<lparr>period = ''month'', updatedAt = 1800,
         entries = Items [Entry (sampleEntry ''alice'' 30),
                          Entry (sampleEntry ''abbott'' 500),
                          Entry (sampleEntry ''carol'' 40)]\<rparr>),
      (''year.json'', Parsed \<lparr>period = ''year'', updatedAt = 1750, entries = NoEntries\<rparr>)]"




section \<open>Properties of the scroll restoration hook\<close>

lemma layoutEffect_unmounted:
  "\<not> hasMounted r \<Longrightarrow>
   layoutEffect b y r = (r\<lparr>prevIsActive := b, hasMounted := True\<rparr>, [])"
  by (simp add: layoutEffect_def)

lemma layoutEffect_deactivate:
  "hasMounted r \<Longrightarrow> prevIsActive r \<Longrightarrow>
   layoutEffect False y r =
     (if skipNextAutoSave r then r\<lparr>prevIsActive := False, skipNextAutoSave := False\<rparr>
      else if y \<noteq> 0 \<or> savedScrollY r = 0 then r\<lparr>prevIsActive := False, savedScrollY := y\<rparr>
      else r\<lparr>prevIsActive := False\<rparr>, [])"
  by (simp add: layoutEffect_def)

lemma layoutEffect_activate:
  "hasMounted r \<Longrightarrow> \<not> prevIsActive r \<Longrightarrow>
   layoutEffect True y r =
     (r\<lparr>prevIsActive := True\<rparr>,
      if savedScrollY r = 0 then []
      else [RequestAnimationFrame (RequestAnimationFrame (ScrollTo (savedScrollY r) Auto))])"
  by (simp add: layoutEffect_def)

lemma layoutEffect_same:
  "hasMounted r \<Longrightarrow> prevIsActive r = b \<Longrightarrow> layoutEffect b y r = (r, [])"
  by (auto simp add: layoutEffect_def)

lemma layoutEffect_mounts: "hasMounted (fst (layoutEffect b y r))"
  by (simp add: layoutEffect_def Let_def)

lemma layoutEffect_prev: "prevIsActive (fst (layoutEffect b y r)) = b"
  by (simp add: layoutEffect_def Let_def)

lemma layoutEffect_no_deactivation:
  "\<not> (prevIsActive r \<and> \<not> b) \<Longrightarrow>
     savedScrollY (fst (layoutEffect b y r)) = savedScrollY r
     \<and> skipNextAutoSave (fst (layoutEffect b y r)) = skipNextAutoSave r"
  by (auto simp add: layoutEffect_def Let_def)

lemma step_overwrites:
  "savedScrollY (fst (step r ev)) \<noteq> savedScrollY r \<Longrightarrow>
     (\<exists>y. ev = SaveScrollPosition y) \<or>
     (\<exists>y. ev = Observe False y \<and> hasMounted r \<and> prevIsActive r \<and> \<not> skipNextAutoSave r
          \<and> (y \<noteq> 0 \<or> savedScrollY r = 0) \<and> savedScrollY (fst (step r ev)) = y)"
  by (cases ev) (auto simp add: layoutEffect_def Let_def split: if_splits)

text \<open>
  Claim C1. In every state of the cells (reachable or not) that is mounted and active
  and holds a non-zero saved offset, an effect run that deactivates while the window
  reads 0 leaves the saved offset as it was, whether or not the skip flag is armed.
  More generally, for every state and every event: if the event changes the saved
  offset, then it is either an explicit \<open>saveScrollPosition\<close> call, or a deactivating
  effect run on a mounted, active state with the skip flag unset whose reading is
  non-zero or whose stored offset is zero, and the new offset is that reading.
\<close>

theorem zero_reading_keeps_saved_offset:
  "(hasMounted r \<and> prevIsActive r \<and> savedScrollY r \<noteq> 0 \<longrightarrow>
      savedScrollY (fst (layoutEffect False 0 r)) = savedScrollY r)
   \<and> (savedScrollY (fst (step r ev)) \<noteq> savedScrollY r \<longrightarrow>
     (\<exists>y. ev = SaveScrollPosition y) \<or>
     (\<exists>y. ev = Observe False y \<and> hasMounted r \<and> prevIsActive r \<and> \<not> skipNextAutoSave r
          \<and> (y \<noteq> 0 \<or> savedScrollY r = 0) \<and> savedScrollY (fst (step r ev)) = y))"
proof (intro conjI impI)
  assume "hasMounted r \<and> prevIsActive r \<and> savedScrollY r \<noteq> 0"
  then show "savedScrollY (fst (layoutEffect False 0 r)) = savedScrollY r"
    by (simp add: layoutEffect_deactivate)
next
  assume "savedScrollY (fst (step r ev)) \<noteq> savedScrollY r"
  then show "(\<exists>y. ev = SaveScrollPosition y) \<or>
     (\<exists>y. ev = Observe False y \<and> hasMounted r \<and> prevIsActive r \<and> \<not> skipNextAutoSave r
          \<and> (y \<noteq> 0 \<or> savedScrollY r = 0) \<and> savedScrollY (fst (step r ev)) = y)"
    by (rule step_overwrites)
qed

text \<open>
  The state with saved offset 150 is reached from the first render by mounting,
  deactivating at offset 150 and reactivating; there a deactivation reading 0 keeps
  150, and one reading 200 stores 200.
\<close>

theorem zero_reading_keeps_saved_offset_witness:
  "observeAll [(True, 0), (False, 150), (True, 0)] (useScrollRestoration True)
     = savedState 150 True
   \<and> savedScrollY (fst (layoutEffect False 0 (savedState 150 True))) = 150
   \<and> savedScrollY (fst (step (savedState 150 True) (Observe False 200))) = 200"
  using zero_reading_keeps_saved_offset [of "savedState 150 True" "Observe False 200"]
  by (simp add: layoutEffect_def useScrollRestoration_def savedState_def)

text \<open>
  Claim C2. In every mounted state with the skip flag unset: a deactivating effect run
  on an active state with reading \<open>y\<close> stores \<open>y\<close> when \<open>y\<close> is non-zero or the stored
  offset is zero and keeps the stored offset otherwise, so the saved offset equals \<open>y\<close>
  afterwards exactly in that case; and an effect run with flag true followed by one
  with flag false reading 150 leaves the saved offset at 150. The same holds from the
  first render: after any first effect run, true then false at 150 saves 150.
\<close>

theorem deactivation_saves_offset:
  assumes "hasMounted r" and "\<not> skipNextAutoSave r"
  shows "(prevIsActive r \<longrightarrow>
            savedScrollY (fst (layoutEffect False y r))
              = (if y \<noteq> 0 \<or> savedScrollY r = 0 then y else savedScrollY r)
          \<and> (savedScrollY (fst (layoutEffect False y r)) = y
               \<longleftrightarrow> (y \<noteq> 0 \<or> savedScrollY r = 0)))
       \<and> savedScrollY (fst (layoutEffect False 150 (fst (layoutEffect True y0 r)))) = 150
       \<and> savedScrollY (observeAll [(b0, y1), (True, y2), (False, 150)] (useScrollRestoration b1))
           = 150"
  using assms by (auto simp add: layoutEffect_def Let_def useScrollRestoration_def)

theorem deactivation_saves_offset_witness:
  "savedScrollY (fst (layoutEffect False 150 (fst (layoutEffect True 0
      (fst (layoutEffect False 0 (useScrollRestoration False))))))) = 150
   \<and> savedScrollY (fst (layoutEffect False 0 (savedState 150 True))) = 150
   \<and> savedScrollY (fst (layoutEffect False 60 (savedState 150 True))) = 60"
  using deactivation_saves_offset
      [of "fst (layoutEffect False 0 (useScrollRestoration False))" 0 0 False 0 0 False]
    deactivation_saves_offset [of "savedState 150 True" 0 0 False 0 0 False]
    deactivation_saves_offset [of "savedState 150 True" 60 0 False 0 0 False]
  by (simp add: layoutEffect_def useScrollRestoration_def savedState_def)

lemma animationFrame_done: "frameCallbacks w = [] \<Longrightarrow> (animationFrame ^^ n) w = w"
  by (induction n) (simp_all add: animationFrame_def)

lemma frames_restore:
  assumes "calls = [RequestAnimationFrame (RequestAnimationFrame (ScrollTo v Auto))]"
  shows "scrollCommands ((animationFrame ^^ n) (fold perform calls idle))
           = (if n < 2 then [] else [(v, Auto)])"
proof -
  let ?w1 = "\<lparr>frameCallbacks = [ScrollTo v Auto], scrollCommands = []\<rparr>"
  let ?w2 = "\<lparr>frameCallbacks = [], scrollCommands = [(v, Auto)]\<rparr>"
  have w0: "fold perform calls idle
              = \<lparr>frameCallbacks = [RequestAnimationFrame (ScrollTo v Auto)], scrollCommands = []\<rparr>"
    by (simp add: assms idle_def)
  have w1: "animationFrame (fold perform calls idle) = ?w1"
    unfolding w0 by (simp add: animationFrame_def)
  have w2: "animationFrame ?w1 = ?w2"
    by (simp add: animationFrame_def)
  show ?thesis
  proof (cases n)
    case 0
    then show ?thesis by (simp add: w0)
  next
    case n: (Suc m)
    show ?thesis
    proof (cases m)
      case 0
      with n show ?thesis by (simp add: w1)
    next
      case (Suc k)
      have "(animationFrame ^^ n) (fold perform calls idle) = (animationFrame ^^ k) ?w2"
        unfolding n Suc by (simp only: funpow_Suc_right o_apply w1 w2)
      also have "\<dots> = ?w2"
        by (rule animationFrame_done) simp
      finally show ?thesis using n Suc by simp
    qed
  qed
qed

text \<open>
  Claim C3. In every mounted, inactive state, an activating effect run changes nothing
  but the recorded flag; it makes no browser call when the saved offset is zero, and
  otherwise makes exactly one call: a \<^verbatim>\<open>requestAnimationFrame\<close> whose callback
  requests a second frame whose callback scrolls to the saved offset with behaviour
  \<^verbatim>\<open>auto\<close>. A rendering pass is an animation frame of the browser here: handed to a
  browser with nothing pending, the call has issued no scroll command when the first
  frame is over, and exactly one, to the saved offset, when the second frame is over
  and ever after.
\<close>

theorem activation_schedules_restore:
  assumes "hasMounted r" and "\<not> prevIsActive r"
  shows "fst (layoutEffect True y r) = r\<lparr>prevIsActive := True\<rparr>
     \<and> (savedScrollY r = 0 \<longrightarrow> snd (layoutEffect True y r) = [])
     \<and> (savedScrollY r \<noteq> 0 \<longrightarrow>
          snd (layoutEffect True y r)
            = [RequestAnimationFrame (RequestAnimationFrame (ScrollTo (savedScrollY r) Auto))]
          \<and> (\<forall>n. scrollCommands
                   ((animationFrame ^^ n) (fold perform (snd (layoutEffect True y r)) idle))
                = (if n < 2 then [] else [(savedScrollY r, Auto)])))"
proof (intro conjI impI allI)
  show "fst (layoutEffect True y r) = r\<lparr>prevIsActive := True\<rparr>"
    using assms by (simp add: layoutEffect_activate)
  show "snd (layoutEffect True y r) = []" if "savedScrollY r = 0"
    using assms that by (simp add: layoutEffect_activate)
  show calls: "snd (layoutEffect True y r)
      = [RequestAnimationFrame (RequestAnimationFrame (ScrollTo (savedScrollY r) Auto))]"
    if "savedScrollY r \<noteq> 0"
    using assms that by (simp add: layoutEffect_activate)
  show "scrollCommands ((animationFrame ^^ n) (fold perform (snd (layoutEffect True y r)) idle))
      = (if n < 2 then [] else [(savedScrollY r, Auto)])"
    if "savedScrollY r \<noteq> 0" for n
    by (rule frames_restore) (rule calls [OF that])
qed

theorem activation_schedules_restore_witness:
  "snd (layoutEffect True 0 (savedState 150 False))
     = [RequestAnimationFrame (RequestAnimationFrame (ScrollTo 150 Auto))]
   \<and> scrollCommands (fold perform (snd (layoutEffect True 0 (savedState 150 False))) idle) = []
   \<and> scrollCommands (animationFrame
        (fold perform (snd (layoutEffect True 0 (savedState 150 False))) idle)) = []
   \<and> scrollCommands (animationFrame (animationFrame
        (fold perform (snd (layoutEffect True 0 (savedState 150 False))) idle)))
       = [(150, Auto)]
   \<and> snd (layoutEffect True 0 (savedState 0 False)) = []"
  using activation_schedules_restore [of "savedState 150 False" 0]
    activation_schedules_restore [of "savedState 0 False" 0]
  by (simp add: layoutEffect_def animationFrame_def idle_def savedState_def)

text \<open>
  Claim C4. In every state, \<open>saveScrollPosition\<close> stores the current reading and arms
  the skip flag. On a mounted, active state the next deactivating effect run then makes
  no save whatever the window reads, keeps the stored reading and clears the flag; and
  the deactivation after the following reactivation saves by the usual rule (its reading
  when that is non-zero or the stored offset is zero). In particular a deactivation
  reading 0 right after a save that captured 300 leaves the saved offset at 300.
\<close>

theorem explicit_save_skips_next_auto_save:
  "savedScrollY (saveScrollPosition y r) = y
   \<and> skipNextAutoSave (saveScrollPosition y r)
   \<and> (hasMounted r \<and> prevIsActive r \<longrightarrow>
        layoutEffect False y' (saveScrollPosition y r)
          = (r\<lparr>savedScrollY := y, prevIsActive := False, skipNextAutoSave := False\<rparr>, [])
        \<and> (\<forall>ya yb. savedScrollY (fst (layoutEffect False yb (fst (layoutEffect True ya
               (fst (layoutEffect False y' (saveScrollPosition y r)))))))
             = (if yb \<noteq> 0 \<or> y = 0 then yb else y)))
   \<and> (hasMounted r \<and> prevIsActive r \<longrightarrow>
        savedScrollY (fst (layoutEffect False 0 (saveScrollPosition 300 r))) = 300)"
  by (auto simp add: layoutEffect_def saveScrollPosition_def Let_def)

theorem explicit_save_skips_next_auto_save_witness:
  "savedScrollY (fst (layoutEffect False 0 (saveScrollPosition 300
      (fst (layoutEffect True 0 (useScrollRestoration True)))))) = 300
   \<and> \<not> skipNextAutoSave (fst (layoutEffect False 0 (saveScrollPosition 300
      (fst (layoutEffect True 0 (useScrollRestoration True))))))
   \<and> savedScrollY (fst (layoutEffect False 75 (fst (layoutEffect True 0
      (fst (layoutEffect False 0 (saveScrollPosition 300
        (fst (layoutEffect True 0 (useScrollRestoration True)))))))))) = 75"
  using explicit_save_skips_next_auto_save
      [of 300 "fst (layoutEffect True 0 (useScrollRestoration True))" 0]
  by (simp add: layoutEffect_def saveScrollPosition_def useScrollRestoration_def)

text \<open>
  Claim C5. On cells that have seen no effect run, the first run, with either flag and
  any reading, records the flag and marks the hook mounted; it changes neither the saved
  offset nor the skip flag and makes no browser call.
\<close>

theorem first_observation_does_nothing:
  "\<not> hasMounted r \<Longrightarrow>
     layoutEffect b y r = (r\<lparr>prevIsActive := b, hasMounted := True\<rparr>, [])
     \<and> prevIsActive (fst (layoutEffect b y r)) = b
     \<and> savedScrollY (fst (layoutEffect b y r)) = savedScrollY r
     \<and> skipNextAutoSave (fst (layoutEffect b y r)) = skipNextAutoSave r
     \<and> snd (layoutEffect b y r) = []"
  by (simp add: layoutEffect_unmounted)

theorem first_observation_does_nothing_witness:
  "\<not> hasMounted (useScrollRestoration True)
   \<and> layoutEffect False 40 (useScrollRestoration True)
       = (\<lparr>savedScrollY = 0, hasMounted = True, prevIsActive = False,
           skipNextAutoSave = False\<rparr>, [])
   \<and> layoutEffect True 40 (useScrollRestoration True)
       = (\<lparr>savedScrollY = 0, hasMounted = True, prevIsActive = True,
           skipNextAutoSave = False\<rparr>, [])"
  using first_observation_does_nothing [of "useScrollRestoration True" False 40]
    first_observation_does_nothing [of "useScrollRestoration True" True 40]
  by (simp add: useScrollRestoration_def)

text \<open>
  Claim C6. For every state, flag and readings: running the effect a second time in a
  row with the same flag changes no cell at all (the recorded flag included) and makes
  no browser call.
\<close>

theorem repeated_observation_is_noop:
  "layoutEffect b y' (fst (layoutEffect b y r)) = (fst (layoutEffect b y r), [])"
  by (rule layoutEffect_same) (simp_all add: layoutEffect_mounts layoutEffect_prev)

theorem repeated_observation_is_noop_witness:
  "layoutEffect True 90 (fst (layoutEffect True 10 (useScrollRestoration True)))
     = (\<lparr>savedScrollY = 0, hasMounted = True, prevIsActive = True,
         skipNextAutoSave = False\<rparr>, [])
   \<and> layoutEffect False 0 (fst (layoutEffect False 150
        (savedState 20 True)))
     = (\<lparr>savedScrollY = 150, hasMounted = True, prevIsActive = False,
         skipNextAutoSave = False\<rparr>, [])"
  using repeated_observation_is_noop [of True 90 10 "useScrollRestoration True"]
    repeated_observation_is_noop [of False 0 150
      "savedState 20 True"]
  by (simp add: layoutEffect_def useScrollRestoration_def savedState_def)

lemma observeAll_no_deactivation:
  "\<not> hasDeactivation (prevIsActive r) (map fst obs) \<Longrightarrow>
     savedScrollY (observeAll obs r) = savedScrollY r
     \<and> skipNextAutoSave (observeAll obs r) = skipNextAutoSave r
     \<and> prevIsActive (observeAll obs r) = last (prevIsActive r # map fst obs)"
proof (induction obs arbitrary: r)
  case Nil
  then show ?case by simp
next
  case (Cons ob obs)
  obtain b y where ob: "ob = (b, y)" by (cases ob)
  let ?r' = "fst (layoutEffect b y r)"
  from Cons.prems ob have now: "\<not> (prevIsActive r \<and> \<not> b)"
    and later: "\<not> hasDeactivation (prevIsActive ?r') (map fst obs)"
    by (simp_all add: layoutEffect_prev)
  from Cons.IH [OF later] layoutEffect_no_deactivation [OF now, of y] ob
  show ?case by (simp add: layoutEffect_prev)
qed

lemma observeAll_mounted: "hasMounted r \<Longrightarrow> hasMounted (observeAll obs r)"
  by (induction obs arbitrary: r) (auto simp add: layoutEffect_mounts)

text \<open>
  Claim C9. An effect run with flag true never changes the saved offset or the skip
  flag, in any state. Hence in a mounted, inactive state with saved offset \<open>v \<noteq> 0\<close>,
  activating schedules a restore to \<open>v\<close>, and after a deactivation that captures nothing
  new (it reads 0, or the skip flag is armed) the next activation schedules a restore to
  \<open>v\<close> again. And after \<open>saveScrollPosition\<close> stored \<open>v\<close>, any sequence of effect runs
  without a change from active to inactive keeps the skip flag armed and the stored
  value \<open>v\<close>; when the hook is mounted and that sequence ends active, the deactivation
  that follows clears the flag and still keeps \<open>v\<close>.
\<close>

theorem activation_preserves_saved_state:
  "savedScrollY (fst (layoutEffect True y r)) = savedScrollY r
   \<and> skipNextAutoSave (fst (layoutEffect True y r)) = skipNextAutoSave r
   \<and> (hasMounted r \<and> \<not> prevIsActive r \<and> savedScrollY r \<noteq> 0
        \<and> (y1 = 0 \<or> skipNextAutoSave r) \<longrightarrow>
        snd (layoutEffect True y r)
          = [RequestAnimationFrame (RequestAnimationFrame (ScrollTo (savedScrollY r) Auto))]
        \<and> snd (layoutEffect True y2 (fst (layoutEffect False y1 (fst (layoutEffect True y r)))))
          = [RequestAnimationFrame (RequestAnimationFrame (ScrollTo (savedScrollY r) Auto))])
   \<and> (\<not> hasDeactivation (prevIsActive r) (map fst obs) \<longrightarrow>
        skipNextAutoSave (observeAll obs (saveScrollPosition v r))
        \<and> savedScrollY (observeAll obs (saveScrollPosition v r)) = v)
   \<and> (hasMounted r \<and> \<not> hasDeactivation (prevIsActive r) (map fst obs)
        \<and> last (prevIsActive r # map fst obs) \<longrightarrow>
        \<not> skipNextAutoSave (fst (layoutEffect False y3 (observeAll obs (saveScrollPosition v r))))
        \<and> savedScrollY (fst (layoutEffect False y3 (observeAll obs (saveScrollPosition v r)))) = v)"
proof (intro conjI impI)
  show "savedScrollY (fst (layoutEffect True y r)) = savedScrollY r"
    and "skipNextAutoSave (fst (layoutEffect True y r)) = skipNextAutoSave r"
    by (simp_all add: layoutEffect_no_deactivation)
next
  assume a: "hasMounted r \<and> \<not> prevIsActive r \<and> savedScrollY r \<noteq> 0
    \<and> (y1 = 0 \<or> skipNextAutoSave r)"
  then show "snd (layoutEffect True y r)
      = [RequestAnimationFrame (RequestAnimationFrame (ScrollTo (savedScrollY r) Auto))]"
    by (simp add: layoutEffect_activate)
  from a show "snd (layoutEffect True y2 (fst (layoutEffect False y1 (fst (layoutEffect True y r)))))
      = [RequestAnimationFrame (RequestAnimationFrame (ScrollTo (savedScrollY r) Auto))]"
    by (auto simp add: layoutEffect_def Let_def)
next
  let ?s = "saveScrollPosition v r"
  have s: "prevIsActive ?s = prevIsActive r" "skipNextAutoSave ?s" "savedScrollY ?s = v"
    "hasMounted ?s = hasMounted r"
    by (simp_all add: saveScrollPosition_def Let_def)
  {
    assume "\<not> hasDeactivation (prevIsActive r) (map fst obs)"
    then have "\<not> hasDeactivation (prevIsActive ?s) (map fst obs)" by (simp add: s)
    from observeAll_no_deactivation [OF this]
    show "skipNextAutoSave (observeAll obs ?s)" and "savedScrollY (observeAll obs ?s) = v"
      by (simp_all add: s)
  }
  {
    assume a: "hasMounted r \<and> \<not> hasDeactivation (prevIsActive r) (map fst obs)
        \<and> last (prevIsActive r # map fst obs)"
    then have "\<not> hasDeactivation (prevIsActive ?s) (map fst obs)" by (simp add: s)
    from observeAll_no_deactivation [OF this] a
    have k: "skipNextAutoSave (observeAll obs ?s)" "savedScrollY (observeAll obs ?s) = v"
      "prevIsActive (observeAll obs ?s)"
      by (simp_all add: s)
    from a have m: "hasMounted (observeAll obs ?s)"
      by (simp add: observeAll_mounted s)
    from layoutEffect_deactivate [OF m k(3), of y3] k
    show "\<not> skipNextAutoSave (fst (layoutEffect False y3 (observeAll obs ?s)))"
      and "savedScrollY (fst (layoutEffect False y3 (observeAll obs ?s))) = v"
      by simp_all
  }
qed

theorem activation_preserves_saved_state_witness:
  "snd (layoutEffect True 0 (fst (layoutEffect False 0
        (fst (layoutEffect True 0 (savedState 150 False))))))
     = [RequestAnimationFrame (RequestAnimationFrame (ScrollTo 150 Auto))]
   \<and> \<not> hasDeactivation False (map fst [(False, 7), (True, 8), (True, 9)])
   \<and> skipNextAutoSave
       (observeAll [(False, 7), (True, 8), (True, 9)] (saveScrollPosition 300 (savedState 150 False)))
   \<and> \<not> skipNextAutoSave (fst (layoutEffect False 0
       (observeAll [(False, 7), (True, 8), (True, 9)] (saveScrollPosition 300 (savedState 150 False)))))
   \<and> savedScrollY (fst (layoutEffect False 0
       (observeAll [(False, 7), (True, 8), (True, 9)] (saveScrollPosition 300 (savedState 150 False))))) = 300"
  using activation_preserves_saved_state
      [of 0 "savedState 150 False" 0 0 "[(False, 7), (True, 8), (True, 9)]" 300 0]
  by (simp add: layoutEffect_def saveScrollPosition_def savedState_def)

section \<open>Properties of the people API handler\<close>

lemma includes_sub_iff: "includes_sub s sub \<longleftrightarrow> (\<exists>p q. s = p @ sub @ q)"
proof (induction s)
  case Nil
  then show ?case by auto
next
  case (Cons c cs)
  show ?case
  proof
    assume "includes_sub (c # cs) sub"
    then consider "take (length sub) (c # cs) = sub" | "includes_sub cs sub" by auto
    then show "\<exists>p q. c # cs = p @ sub @ q"
    proof cases
      case 1
      then have "c # cs = [] @ sub @ drop (length sub) (c # cs)"
        by (metis append_Nil append_take_drop_id)
      then show ?thesis by blast
    next
      case 2
      with Cons.IH obtain p q where "cs = p @ sub @ q" by blast
      then have "c # cs = (c # p) @ sub @ q" by simp
      then show ?thesis by blast
    qed
  next
    assume "\<exists>p q. c # cs = p @ sub @ q"
    then obtain p q where pq: "c # cs = p @ sub @ q" by blast
    show "includes_sub (c # cs) sub"
    proof (cases p)
      case Nil
      with pq have "take (length sub) (c # cs) = sub" by simp
      then show ?thesis by simp
    next
      case (Cons a p')
      with pq have "cs = p' @ sub @ q" by simp
      with Cons.IH have "includes_sub cs sub" by blast
      then show ?thesis by simp
    qed
  qed
qed



lemma set_insert_by: "set (insert_by cmp x ys) = insert x (set ys)"
  by (induction ys) auto


lemma sorted_insert_by:
  "sorted_wrt (\<lambda>a b. total_points b \<le> total_points a) ys \<Longrightarrow>
   sorted_wrt (\<lambda>a b. total_points b \<le> total_points a) (insert_by byPoints x ys)"
  by (induction ys) (auto simp add: byPoints_def set_insert_by)

lemma sorted_array_sort:
  "sorted_wrt (\<lambda>a b. total_points b \<le> total_points a) (array_sort byPoints xs)"
proof (induction xs)
  case Nil
  then show ?case by (simp add: array_sort_def)
next
  case (Cons x xs)
  then show ?case using sorted_insert_by [of "array_sort byPoints xs" x]
    by (simp add: array_sort_def)
qed

lemma mergeEntries_eq:
  "mergeEntries es m = (fold mergeEntry (entriesBeforeThrow es) m, BadEntry \<in> set es)"
  by (induction es m rule: mergeEntries.induct) auto

lemma mergeFile_Parsed:
  "allContributors (mergeFile (fname, Parsed d) s)
     = fold mergeEntry (mergedOf d) (allContributors s)"
  "latestUpdatedAt (mergeFile (fname, Parsed d) s) = max (updatedAt d) (latestUpdatedAt s)"
  "errorLog (mergeFile (fname, Parsed d) s)
     = errorLog s @ (if throws (Parsed d) then [ErrorReading fname] else [])"
  by (simp_all add: Let_def mergeEntries_eq mergedOf_def logError_def max_def
      split: entries_json.split)

lemma mergeFile_failsToRead:
  "failsToRead c \<Longrightarrow> mergeFile (fname, c) s = s\<lparr>errorLog := errorLog s @ [ErrorReading fname]\<rparr>"
  by (cases c) (simp_all add: logError_def)

lemma failsToRead_throws: "failsToRead c \<Longrightarrow> throws c"
  by (cases c) simp_all

lemma readData_Cons:
  "readData ((fname, c) # fs) = (case c of Parsed d \<Rightarrow> d # readData fs | _ \<Rightarrow> readData fs)"
  by (cases c) simp_all

lemma allContributors_fold:
  "allContributors (fold mergeFile fs s)
     = fold mergeEntry (concat (map mergedOf (readData fs))) (allContributors s)"
proof (induction fs arbitrary: s)
  case Nil
  then show ?case by simp
next
  case (Cons f fs)
  obtain fname c where f: "f = (fname, c)" by (cases f)
  show ?case
  proof (cases c)
    case (Parsed d)
    with f Cons.IH [of "mergeFile (fname, Parsed d) s"] show ?thesis
      by (simp add: mergeFile_Parsed del: mergeFile.simps)
  qed (use f Cons.IH in \<open>simp_all add: logError_def\<close>)
qed

lemma latestUpdatedAt_fold:
  "latestUpdatedAt (fold mergeFile fs s)
     = fold max (map updatedAt (readData fs)) (latestUpdatedAt s)"
proof (induction fs arbitrary: s)
  case Nil
  then show ?case by simp
next
  case (Cons f fs)
  obtain fname c where f: "f = (fname, c)" by (cases f)
  show ?case
  proof (cases c)
    case (Parsed d)
    with f Cons.IH [of "mergeFile (fname, Parsed d) s"] show ?thesis
      by (simp add: mergeFile_Parsed del: mergeFile.simps)
  qed (use f Cons.IH in \<open>simp_all add: logError_def\<close>)
qed

lemma errorLog_fold:
  "errorLog (fold mergeFile fs s)
     = errorLog s @ map (ErrorReading \<circ> fst) (filter (\<lambda>f. throws (snd f)) fs)"
proof (induction fs arbitrary: s)
  case Nil
  then show ?case by simp
next
  case (Cons f fs)
  obtain fname c where f: "f = (fname, c)" by (cases f)
  show ?case
  proof (cases c)
    case (Parsed d)
    with f Cons.IH [of "mergeFile (fname, Parsed d) s"] show ?thesis
      by (simp add: mergeFile_Parsed del: mergeFile.simps)
  qed (use f Cons.IH in \<open>simp_all add: logError_def\<close>)
qed







lemma GET_Some:
  "GET (Some dir) =
     (Json200 \<lparr>respUpdatedAt = fold max (map updatedAt (readData (jsonFiles dir))) 0,
               people = array_sort byPoints (map snd (fold mergeEntry (mergedEntries dir) []))\<rparr>,
      map (ErrorReading \<circ> fst) (filter (\<lambda>f. throws (snd f)) (jsonFiles dir)))"
  by (simp add: GET_def Let_def allContributors_fold latestUpdatedAt_fold errorLog_fold
      mergedEntries_def)





lemma GET_sampleDir:
  "GET (Some sampleDir) =
     (Json200 \<lparr>respUpdatedAt = 1800,
        people = [sampleEntry ''bob'' 40, sampleEntry ''carol'' 40, sampleEntry ''alice'' 30]\<rparr>,
      [ErrorReading ''broken.json''])"
  by (simp add: GET_def jsonFiles_def sampleDir_def endsWith_def Let_def logError_def
      mergeEntry_def isBot_def sampleEntry_def array_sort_def byPoints_def)










text \<open>
  Claim C10. Whenever the handler answers with status 200, the people list of the
  answer is in non-increasing order of \<^verbatim>\<open>total_points\<close>.
\<close>

theorem people_sorted_by_points:
  "fst (GET readdir) = Json200 body \<Longrightarrow>
     sorted_wrt (\<lambda>a b. total_points b \<le> total_points a) (people body)"
proof (cases readdir)
  case None
  assume "fst (GET readdir) = Json200 body"
  with None show ?thesis by (simp add: GET_def)
next
  case (Some dir)
  assume "fst (GET readdir) = Json200 body"
  with Some have "people body
      = array_sort byPoints (map snd (fold mergeEntry (mergedEntries dir) []))"
    by (auto simp add: GET_Some)
  then show ?thesis by (simp add: sorted_array_sort)
qed

theorem people_sorted_by_points_witness:
  "fst (GET (Some sampleDir))
     = Json200 \<lparr>respUpdatedAt = 1800,
         people = [sampleEntry ''bob'' 40, sampleEntry ''carol'' 40, sampleEntry ''alice'' 30]\<rparr>
   \<and> sorted_wrt (\<lambda>a b. total_points b \<le> total_points a)
        [sampleEntry ''bob'' 40, sampleEntry ''carol'' 40, sampleEntry ''alice'' 30]"
  using people_sorted_by_points [of "Some sampleDir"
      "\<lparr>respUpdatedAt = 1800,
         people = [sampleEntry ''bob'' 40, sampleEntry ''carol'' 40, sampleEntry ''alice'' 30]\<rparr>"]
  by (simp add: GET_sampleDir)

end
